theory Spec2Isabelle
  imports Main "HOL-Library.AList" "HOL-Library.Sublist"
begin

section \<open>Data model of the crawler (class Rufus, src/rufus.py)\<close>

text \<open>
  A call to an external collaborator (the chat-completion client, the browser page, the
  file system) either returns a value or raises; every \<open>try\<close>/\<open>except Exception\<close> of the
  source is a case distinction on this type.
\<close>

datatype 'a outcome = Raised | Returned 'a

text \<open>
  The history of a run, kept only for observation (the program never reads it):
  \<^item> \<open>Visit u d\<close>: line 210, \<open>self.visited_urls.add(current_url)\<close> in \<open>crawl_page\<close> at depth \<open>d\<close>;
  \<^item> \<open>Expand i ks\<close>: line 218, \<open>get_semantic_keywords(i)\<close> was invoked and returned \<open>ks\<close>;
  \<^item> \<open>Goto u\<close>: line 220, \<open>page.goto(u)\<close> was called;
  \<^item> \<open>Relevance u b\<close>: line 228, \<open>is_content_relevant\<close> was invoked for page \<open>u\<close> and returned \<open>b\<close>;
  \<^item> \<open>FollowCall p h b\<close>: line 188, \<open>should_follow_link\<close> was invoked for the link \<open>h\<close> found on
    page \<open>p\<close> and returned \<open>b\<close>.
\<close>

datatype event =
    Visit string int
  | Expand string "string list"
  | Goto string
  | Relevance string bool
  | FollowCall string string bool

text \<open>The dictionary stored in \<open>self.page_data[current_url]\<close> (lines 233-240).\<close>

record page_record =
  pr_url :: string
  pr_depth :: int
  pr_content :: string
  pr_crawl_time :: string
  pr_title :: string
  pr_matched_keywords :: "string list"

text \<open>The dictionary \<open>results\<close> built by \<open>save_results\<close> (lines 266-283).\<close>

record report =
  md_base_url :: string
  md_instruction :: string
  md_crawl_time :: string
  md_total_pages :: nat
  md_relevant_pages :: nat
  md_keywords_used :: "string list"
  relevance_map :: "(string \<times> bool) list"
  depth_analysis :: "(string \<times> string list \<times> nat) list"
  rp_page_data :: "(string \<times> page_record) list"

text \<open>
  The instance attributes set by \<open>__init__\<close> (lines 37-41). Python dictionaries keep
  insertion order and overwrite in place, which is \<open>AList.update\<close> on an association
  list. \<open>keywords_list\<close> is \<open>self.keywords\<close>. \<open>world\<close> is the state of everything outside
  the program (oracle, browser, clock, file system); \<open>trace\<close> is the history described
  above.
\<close>

record 'w rufus =
  visited_urls :: "string set"
  page_relevance :: "(string \<times> bool) list"
  page_data :: "(string \<times> page_record) list"
  depth_data :: "(int \<times> string list) list"
  keywords_list :: "string list"
  world :: 'w
  trace :: "event list"

definition rufus_init :: "'w \<Rightarrow> 'w rufus" where
  "rufus_init w =
     \<lparr>visited_urls = {}, page_relevance = [], page_data = [], depth_data = [],
      keywords_list = [], world = w, trace = []\<rparr>"

text \<open>
  The external collaborators, as functions on the outside world \<open>'w\<close>; \<open>'h\<close> is the type of
  element handles returned by \<open>page.query_selector_all\<close>.
  \<^item> \<open>oracle_keywords i\<close>: the chat completion of lines 63-70 for instruction \<open>i\<close>, followed by
    \<open>response.choices[0].message.content\<close>; \<open>Raised\<close> when anything up to there raises;
  \<^item> \<open>oracle_relevant i ks c\<close>: the same for lines 106-115 (the prompt is built from the
    instruction, the keywords and the excerpt \<open>c\<close>);
  \<^item> \<open>oracle_follow i ks t h c\<close>: the same for lines 152-161 (link text \<open>t\<close>, URL \<open>h\<close>,
    surrounding text \<open>c\<close>);
  \<^item> \<open>goto\<close>, \<open>wait_for_load_state\<close>, \<open>inner_text_body\<close>, \<open>title\<close>, \<open>query_selector_all\<close>:
    the calls on \<open>page\<close> of lines 220, 223, 227, 238 and 178;
  \<^item> \<open>get_attribute\<close>, \<open>link_inner_text\<close>, \<open>parent_text\<close>: the calls on a link of lines 180,
    184 and 185 (\<open>None\<close> is Python's \<open>None\<close>);
  \<^item> \<open>now_isoformat\<close>, \<open>now_strftime\<close>: \<open>datetime.now()\<close> formatted as in lines 237, 270 and 263;
  \<^item> \<open>urljoin\<close>: \<open>urllib.parse.urljoin\<close>, a pure function of the standard library;
  \<^item> \<open>launch\<close>: lines 302-304; \<open>close\<close>: line 314; \<open>write_json\<close>: lines 285-286.
\<close>

record ('w, 'h) env =
  oracle_keywords :: "string \<Rightarrow> 'w \<Rightarrow> string outcome \<times> 'w"
  oracle_relevant :: "string \<Rightarrow> string list \<Rightarrow> string \<Rightarrow> 'w \<Rightarrow> string outcome \<times> 'w"
  oracle_follow :: "string \<Rightarrow> string list \<Rightarrow> string \<Rightarrow> string \<Rightarrow> string \<Rightarrow> 'w \<Rightarrow> string outcome \<times> 'w"
  goto :: "string \<Rightarrow> 'w \<Rightarrow> unit outcome \<times> 'w"
  wait_for_load_state :: "'w \<Rightarrow> unit outcome \<times> 'w"
  inner_text_body :: "'w \<Rightarrow> string outcome \<times> 'w"
  title :: "'w \<Rightarrow> string outcome \<times> 'w"
  query_selector_all :: "'w \<Rightarrow> 'h list outcome \<times> 'w"
  get_attribute :: "'h \<Rightarrow> 'w \<Rightarrow> string option outcome \<times> 'w"
  link_inner_text :: "'h \<Rightarrow> 'w \<Rightarrow> string outcome \<times> 'w"
  parent_text :: "'h \<Rightarrow> 'w \<Rightarrow> string option outcome \<times> 'w"
  now_isoformat :: "'w \<Rightarrow> string \<times> 'w"
  now_strftime :: "'w \<Rightarrow> string \<times> 'w"
  urljoin :: "string \<Rightarrow> string \<Rightarrow> string"
  launch :: "'w \<Rightarrow> unit outcome \<times> 'w"
  close :: "'w \<Rightarrow> unit outcome \<times> 'w"
  write_json :: "string \<Rightarrow> report \<Rightarrow> 'w \<Rightarrow> unit outcome \<times> 'w"

definition emit :: "event \<Rightarrow> 'w rufus \<Rightarrow> 'w rufus" where
  "emit e s = s\<lparr>trace := trace s @ [e]\<rparr>"

section \<open>String operations of Python used by the source\<close>

text \<open>\<open>s.split(',')\<close>: never empty, \<open>''.split(',') == ['']\<close>.\<close>

fun split_on :: "char \<Rightarrow> string \<Rightarrow> string list" where
  "split_on c [] = [[]]"
| "split_on c (x # xs) =
     (if x = c then [] # split_on c xs
      else (case split_on c xs of
              [] \<Rightarrow> [[x]]
            | y # ys \<Rightarrow> (x # y) # ys))"

text \<open>
  \<open>str.isspace\<close> on the code points below 256 (a \<open>char\<close> is eight bits): tab to carriage
  return, the four separators 28-31, space, NEL (133) and the no-break space (160).
\<close>

definition is_space :: "char \<Rightarrow> bool" where
  "is_space c =
     (let n = (of_char c :: nat)
      in (9 \<le> n \<and> n \<le> 13) \<or> (28 \<le> n \<and> n \<le> 32) \<or> n = 133 \<or> n = 160)"

definition strip :: "string \<Rightarrow> string" where
  "strip s = rev (dropWhile is_space (rev (dropWhile is_space s)))"

text \<open>
  \<open>str.upper\<close> on the code points below 256. The three letters whose upper case is not a
  single code point below 256 (181, 223, 255) are left alone: none of them becomes an
  ASCII letter, so the comparison with \<open>"TRUE"\<close> of lines 115 and 161 is the same.
\<close>

definition upper_char :: "char \<Rightarrow> char" where
  "upper_char c =
     (let n = (of_char c :: nat)
      in if (97 \<le> n \<and> n \<le> 122) \<or> (224 \<le> n \<and> n \<le> 254 \<and> n \<noteq> 247)
         then char_of (n - 32) else c)"

definition upper :: "string \<Rightarrow> string" where
  "upper s = map upper_char s"

section \<open>Classification gateway (lines 43-167)\<close>

text \<open>
  \<open>get_semantic_keywords\<close> (lines 43-78): the keywords are the comma-separated pieces of
  the response, each stripped; any exception gives the empty list.
\<close>

definition get_semantic_keywords ::
  "('w, 'h) env \<Rightarrow> string \<Rightarrow> 'w rufus \<Rightarrow> string list \<times> 'w rufus" where
  "get_semantic_keywords E instruction s =
     (case oracle_keywords E instruction (world s) of
        (Raised, w) \<Rightarrow> ([], s\<lparr>world := w\<rparr>)
      | (Returned content, w) \<Rightarrow> (map strip (split_on CHR '','' content), s\<lparr>world := w\<rparr>))"

text \<open>\<open>is_content_relevant\<close> (lines 80-121): the excerpt is \<open>content[:2000]\<close>.\<close>

definition is_content_relevant ::
  "('w, 'h) env \<Rightarrow> string \<Rightarrow> string \<Rightarrow> string list \<Rightarrow> 'w rufus \<Rightarrow> bool \<times> 'w rufus" where
  "is_content_relevant E content instruction kws s =
     (case oracle_relevant E instruction kws (take 2000 content) (world s) of
        (Raised, w) \<Rightarrow> (False, s\<lparr>world := w\<rparr>)
      | (Returned answer, w) \<Rightarrow> (upper (strip answer) = ''TRUE'', s\<lparr>world := w\<rparr>))"

text \<open>\<open>should_follow_link\<close> (lines 123-167).\<close>

definition should_follow_link ::
  "('w, 'h) env \<Rightarrow> string \<Rightarrow> string \<Rightarrow> string \<Rightarrow> string list \<Rightarrow> string \<Rightarrow> 'w rufus
     \<Rightarrow> bool \<times> 'w rufus" where
  "should_follow_link E link_text href instruction kws surrounding_text s =
     (case oracle_follow E instruction kws link_text href surrounding_text (world s) of
        (Raised, w) \<Rightarrow> (False, s\<lparr>world := w\<rparr>)
      | (Returned answer, w) \<Rightarrow> (upper (strip answer) = ''TRUE'', s\<lparr>world := w\<rparr>))"


section \<open>Link analysis (lines 169-198)\<close>

text \<open>
  The body of the loop of lines 179-192, for one link. \<open>Raised\<close> means that a call on the
  link raised: the loop is left and the dictionary built so far is returned (lines
  196-198). \<open>if href\<close> is false for \<open>None\<close> and for the empty string;
  \<open>parent[:200] if parent else ""\<close> is the empty string for \<open>None\<close> and for the empty string.
\<close>

definition analyze_link ::
  "('w, 'h) env \<Rightarrow> 'h \<Rightarrow> string \<Rightarrow> string \<Rightarrow> string \<Rightarrow> (string \<times> bool) list \<Rightarrow> 'w rufus
     \<Rightarrow> unit outcome \<times> (string \<times> bool) list \<times> 'w rufus" where
  "analyze_link E link current_url base_url instruction link_relevance s =
     (case get_attribute E link (world s) of
        (Raised, w) \<Rightarrow> (Raised, link_relevance, s\<lparr>world := w\<rparr>)
      | (Returned href, w) \<Rightarrow>
          (if href = None \<or> href = Some [] then (Returned (), link_relevance, s\<lparr>world := w\<rparr>)
           else if prefix base_url (urljoin E current_url (the href))
                   \<and> urljoin E current_url (the href) \<notin> visited_urls s then
             (case link_inner_text E link w of
                (Raised, w2) \<Rightarrow> (Raised, link_relevance, s\<lparr>world := w2\<rparr>)
              | (Returned link_text, w2) \<Rightarrow>
                  (case parent_text E link w2 of
                     (Raised, w3) \<Rightarrow> (Raised, link_relevance, s\<lparr>world := w3\<rparr>)
                   | (Returned parent, w3) \<Rightarrow>
                       (case should_follow_link E link_text (urljoin E current_url (the href))
                               instruction (keywords_list s)
                               (if parent = None \<or> parent = Some [] then []
                                else take 200 (the parent))
                               (s\<lparr>world := w3\<rparr>) of
                          (is_relevant, s2) \<Rightarrow>
                            (Returned (),
                             AList.update (urljoin E current_url (the href)) is_relevant
                               link_relevance,
                             emit (FollowCall current_url (urljoin E current_url (the href))
                                     is_relevant) s2))))
           else (Returned (), link_relevance, s\<lparr>world := w\<rparr>)))"

fun analyze_links ::
  "('w, 'h) env \<Rightarrow> 'h list \<Rightarrow> string \<Rightarrow> string \<Rightarrow> string \<Rightarrow> (string \<times> bool) list \<Rightarrow> 'w rufus
     \<Rightarrow> (string \<times> bool) list \<times> 'w rufus" where
  "analyze_links E [] current_url base_url instruction link_relevance s = (link_relevance, s)"
| "analyze_links E (link # links) current_url base_url instruction link_relevance s =
     (case analyze_link E link current_url base_url instruction link_relevance s of
        (Raised, link_relevance', s') \<Rightarrow> (link_relevance', s')
      | (Returned _, link_relevance', s') \<Rightarrow>
          analyze_links E links current_url base_url instruction link_relevance' s')"

text \<open>\<open>analyze_page_links\<close> (lines 169-198).\<close>

definition analyze_page_links ::
  "('w, 'h) env \<Rightarrow> string \<Rightarrow> string \<Rightarrow> string \<Rightarrow> 'w rufus \<Rightarrow> (string \<times> bool) list \<times> 'w rufus" where
  "analyze_page_links E current_url base_url instruction s =
     (case query_selector_all E (world s) of
        (Raised, w) \<Rightarrow> ([], s\<lparr>world := w\<rparr>)
      | (Returned links, w) \<Rightarrow>
          analyze_links E links current_url base_url instruction [] (s\<lparr>world := w\<rparr>))"

section \<open>Crawl controller (lines 200-255)\<close>

text \<open>Lines 210-213: the URL enters the visited set and its depth gets a list.\<close>

definition enter_page :: "string \<Rightarrow> int \<Rightarrow> 'w rufus \<Rightarrow> 'w rufus" where
  "enter_page current_url depth s =
     (let s1 = emit (Visit current_url depth)
                 (s\<lparr>visited_urls := insert current_url (visited_urls s)\<rparr>)
      in if depth \<notin> fst ` set (depth_data s1)
         then s1\<lparr>depth_data := AList.update depth [] (depth_data s1)\<rparr>
         else s1)"

text \<open>Lines 217-218: \<open>if not self.keywords\<close> holds exactly for the empty list.\<close>

definition ensure_keywords :: "('w, 'h) env \<Rightarrow> string \<Rightarrow> 'w rufus \<Rightarrow> 'w rufus" where
  "ensure_keywords E instruction s =
     (if keywords_list s = [] then
        (case get_semantic_keywords E instruction s of
           (kws, s1) \<Rightarrow> emit (Expand instruction kws) (s1\<lparr>keywords_list := kws\<rparr>))
      else s)"

text \<open>Lines 220-227: \<open>asyncio.sleep(1)\<close> changes nothing the program can see.\<close>

definition load_page ::
  "('w, 'h) env \<Rightarrow> string \<Rightarrow> 'w rufus \<Rightarrow> string outcome \<times> 'w rufus" where
  "load_page E current_url s =
     (let s0 = emit (Goto current_url) s
      in case goto E current_url (world s0) of
           (Raised, w) \<Rightarrow> (Raised, s0\<lparr>world := w\<rparr>)
         | (Returned _, w) \<Rightarrow>
             (case wait_for_load_state E w of
                (Raised, w2) \<Rightarrow> (Raised, s0\<lparr>world := w2\<rparr>)
              | (Returned _, w2) \<Rightarrow>
                  (case inner_text_body E w2 of
                     (Raised, w3) \<Rightarrow> (Raised, s0\<lparr>world := w3\<rparr>)
                   | (Returned content, w3) \<Rightarrow> (Returned content, s0\<lparr>world := w3\<rparr>))))"

text \<open>
  Lines 228-241. The values of the dictionary literal are evaluated in order, so the clock
  is read before \<open>page.title()\<close>; when that raises, neither \<open>page_data\<close> nor \<open>depth_data\<close>
  changes. \<open>self.depth_data[depth]\<close> raises KeyError for a missing key.
\<close>

definition record_page ::
  "('w, 'h) env \<Rightarrow> string \<Rightarrow> string \<Rightarrow> int \<Rightarrow> string \<Rightarrow> 'w rufus \<Rightarrow> unit outcome \<times> 'w rufus" where
  "record_page E current_url instruction depth content s =
     (case is_content_relevant E content instruction (keywords_list s) s of
        (is_relevant, s1) \<Rightarrow>
          (let s2 = emit (Relevance current_url is_relevant)
                      (s1\<lparr>page_relevance :=
                            AList.update current_url is_relevant (page_relevance s1)\<rparr>)
           in if is_relevant then
                (case now_isoformat E (world s2) of
                   (crawl_time, w) \<Rightarrow>
                     (case title E w of
                        (Raised, w2) \<Rightarrow> (Raised, s2\<lparr>world := w2\<rparr>)
                      | (Returned page_title, w2) \<Rightarrow>
                          (let s3 = s2\<lparr>world := w2,
                                       page_data := AList.update current_url
                                         \<lparr>pr_url = current_url, pr_depth = depth,
                                          pr_content = content, pr_crawl_time = crawl_time,
                                          pr_title = page_title,
                                          pr_matched_keywords = keywords_list s2\<rparr>
                                         (page_data s2)\<rparr>
                           in if depth \<in> fst ` set (depth_data s3) then
                                (Returned (),
                                 s3\<lparr>depth_data :=
                                      AList.map_entry depth (\<lambda>urls. urls @ [current_url])
                                        (depth_data s3)\<rparr>)
                              else (Raised, s3))))
              else (Returned (), s2)))"

text \<open>Lines 216-241, the part of the \<open>try\<close> block before the links are looked at.\<close>

definition process_page ::
  "('w, 'h) env \<Rightarrow> string \<Rightarrow> string \<Rightarrow> int \<Rightarrow> 'w rufus \<Rightarrow> unit outcome \<times> 'w rufus" where
  "process_page E current_url instruction depth s =
     (case load_page E current_url (ensure_keywords E instruction s) of
        (Raised, s1) \<Rightarrow> (Raised, s1)
      | (Returned content, s1) \<Rightarrow> record_page E current_url instruction depth content s1)"

text \<open>
  \<open>crawl_page\<close> (lines 200-255) and its loop over \<open>link_relevance.items()\<close> (lines 247-252).
  Every exception of the \<open>try\<close> block ends the call (lines 254-255); the recursive call
  catches its own exceptions, so the loop always runs to the end.
\<close>

function
  crawl_page ::
    "('w, 'h) env \<Rightarrow> string \<Rightarrow> string \<Rightarrow> string \<Rightarrow> int \<Rightarrow> int \<Rightarrow> 'w rufus \<Rightarrow> 'w rufus" and
  follow_links ::
    "('w, 'h) env \<Rightarrow> (string \<times> bool) list \<Rightarrow> string \<Rightarrow> string \<Rightarrow> int \<Rightarrow> int \<Rightarrow> 'w rufus
       \<Rightarrow> 'w rufus" where
  "crawl_page E current_url base_url instruction depth max_depth s =
     (if depth > max_depth \<or> current_url \<in> visited_urls s then s
      else
        (case process_page E current_url instruction depth (enter_page current_url depth s) of
           (Raised, s1) \<Rightarrow> s1
         | (Returned _, s1) \<Rightarrow>
             if depth < max_depth then
               (case analyze_page_links E current_url base_url instruction s1 of
                  (link_relevance, s2) \<Rightarrow>
                    follow_links E link_relevance base_url instruction depth max_depth s2)
             else s1))"
| "follow_links E [] base_url instruction depth max_depth s = s"
| "follow_links E ((url, relevant) # rest) base_url instruction depth max_depth s =
     follow_links E rest base_url instruction depth max_depth
       (if relevant \<and> url \<notin> visited_urls s
        then crawl_page E url base_url instruction (depth + 1) max_depth s
        else s)"
  by pat_completeness auto
termination
  by (relation "inv_image (less_than <*lex*> less_than)
        (\<lambda>x. case x of
           Inl (E, current_url, base_url, instruction, depth, max_depth, s) \<Rightarrow>
             (if depth > max_depth then 0 else 2 * nat (max_depth - depth) + 2, 0)
         | Inr (E, items, base_url, instruction, depth, max_depth, s) \<Rightarrow>
             (if depth \<ge> max_depth then 1 else 2 * nat (max_depth - depth) + 1,
              length items))") auto

declare crawl_page.simps [simp del]

section \<open>Result aggregation (lines 257-289) and the entry point (lines 291-314)\<close>

text \<open>\<open>str(depth)\<close> for a Python integer: decimal digits, with a minus sign when negative.\<close>

fun str_nat :: "nat \<Rightarrow> string" where
  "str_nat n =
     (if n < 10 then [char_of (48 + n)]
      else str_nat (n div 10) @ [char_of (48 + n mod 10)])"

declare str_nat.simps [simp del]

definition str_int :: "int \<Rightarrow> string" where
  "str_int i = (if i < 0 then CHR ''-'' # str_nat (nat (- i)) else str_nat (nat i))"

text \<open>
  The dictionary comprehension of lines 276-281: one entry per item of \<open>depth_data\<close>,
  inserted in order under the key \<open>str(depth)\<close>.
\<close>

definition depth_analysis_of :: "(int \<times> string list) list \<Rightarrow> (string \<times> string list \<times> nat) list" where
  "depth_analysis_of dd =
     foldl (\<lambda>acc (depth, urls). AList.update (str_int depth) (urls, length urls) acc) [] dd"

text \<open>The dictionary \<open>results\<close> of lines 266-283, given the time read in line 270.\<close>

definition build_results :: "string \<Rightarrow> string \<Rightarrow> string \<Rightarrow> 'w rufus \<Rightarrow> report" where
  "build_results base_url instruction crawl_time s =
     \<lparr>md_base_url = base_url,
      md_instruction = instruction,
      md_crawl_time = crawl_time,
      md_total_pages = card (visited_urls s),
      md_relevant_pages = length (filter snd (page_relevance s)),
      md_keywords_used = keywords_list s,
      relevance_map = page_relevance s,
      depth_analysis = depth_analysis_of (depth_data s),
      rp_page_data = page_data s\<rparr>"

text \<open>
  \<open>save_results\<close> (lines 257-289) returns the file name, or raises when the file cannot be
  written; \<open>results\<close> is a local variable.
\<close>

definition save_results ::
  "('w, 'h) env \<Rightarrow> string \<Rightarrow> string \<Rightarrow> 'w rufus \<Rightarrow> string outcome \<times> 'w rufus" where
  "save_results E base_url instruction s =
     (case now_strftime E (world s) of
        (timestamp, w1) \<Rightarrow>
          (let filename = ''semantic_results_'' @ timestamp @ ''.json''
           in case now_isoformat E w1 of
                (crawl_time, w2) \<Rightarrow>
                  (case write_json E filename (build_results base_url instruction crawl_time s) w2 of
                     (Raised, w3) \<Rightarrow> (Raised, s\<lparr>world := w3\<rparr>)
                   | (Returned _, w3) \<Rightarrow> (Returned filename, s\<lparr>world := w3\<rparr>))))"

text \<open>Lines 297-300.\<close>

definition normalize_base_url :: "string \<Rightarrow> string" where
  "normalize_base_url base_url =
     (let b = (if \<not> (prefix ''http://'' base_url \<or> prefix ''https://'' base_url)
               then ''https://'' @ base_url else base_url)
      in if \<not> suffix ''/'' b then b @ ''/'' else b)"

text \<open>
  \<open>crawl\<close> (lines 291-314). Starting the browser is outside the \<open>try\<close>, so its exception
  reaches the caller. An exception of \<open>save_results\<close> is caught and logged (lines 311-312).
  \<open>browser.close()\<close> runs in \<open>finally\<close>; its exception reaches the caller. The function has
  no \<open>return\<close> statement: what the caller gets is Python's \<open>None\<close>.
\<close>

definition crawl ::
  "('w, 'h) env \<Rightarrow> string \<Rightarrow> string \<Rightarrow> int \<Rightarrow> 'w rufus \<Rightarrow> report option outcome \<times> 'w rufus" where
  "crawl E base_url instruction max_depth s =
     (let base = normalize_base_url base_url
      in case launch E (world s) of
           (Raised, w) \<Rightarrow> (Raised, s\<lparr>world := w\<rparr>)
         | (Returned _, w) \<Rightarrow>
             (let s1 = crawl_page E base base instruction 0 max_depth (s\<lparr>world := w\<rparr>);
                  s2 = snd (save_results E base instruction s1)
              in case close E (world s2) of
                   (Raised, w') \<Rightarrow> (Raised, s2\<lparr>world := w'\<rparr>)
                 | (Returned _, w') \<Rightarrow> (Returned None, s2\<lparr>world := w'\<rparr>)))"

section \<open>Observing a run\<close>

text \<open>
  The part of \<open>crawl_page\<close> that handles one page, up to the loop over the links
  (lines 210-245): the links to loop over and the state reached. It is \<open>crawl_page\<close>
  with the recursion cut out, and is used to reason about one page at a time.
\<close>

definition page_step ::
  "('w, 'h) env \<Rightarrow> string \<Rightarrow> string \<Rightarrow> string \<Rightarrow> int \<Rightarrow> int \<Rightarrow> 'w rufus
     \<Rightarrow> (string \<times> bool) list \<times> 'w rufus" where
  "page_step E current_url base_url instruction depth max_depth s =
     (case process_page E current_url instruction depth (enter_page current_url depth s) of
        (Raised, s1) \<Rightarrow> ([], s1)
      | (Returned _, s1) \<Rightarrow>
          if depth < max_depth then analyze_page_links E current_url base_url instruction s1
          else ([], s1))"

text \<open>The events of each kind in a history, in order.\<close>

fun visits :: "event list \<Rightarrow> (string \<times> int) list" where
  "visits [] = []"
| "visits (Visit u d # es) = (u, d) # visits es"
| "visits (e # es) = visits es"

fun expansions :: "event list \<Rightarrow> string list list" where
  "expansions [] = []"
| "expansions (Expand i ks # es) = ks # expansions es"
| "expansions (e # es) = expansions es"

fun relevances :: "event list \<Rightarrow> (string \<times> bool) list" where
  "relevances [] = []"
| "relevances (Relevance u b # es) = (u, b) # relevances es"
| "relevances (e # es) = relevances es"

fun follow_calls :: "event list \<Rightarrow> (string \<times> string \<times> bool) list" where
  "follow_calls [] = []"
| "follow_calls (FollowCall p h b # es) = (p, h, b) # follow_calls es"
| "follow_calls (e # es) = follow_calls es"

text \<open>All URLs of the depth index, level after level.\<close>

definition indexed_urls :: "'w rufus \<Rightarrow> string list" where
  "indexed_urls s = concat (map snd (depth_data s))"

section \<open>A deterministic stub of the collaborators\<close>

text \<open>
  A renderer and an oracle with fixed answers, for running the crawler on small sites.
  The outside world is the URL the browser is at. A page's body text and title are its
  URL, \<open>links u\<close> are the \<open>href\<close>s on page \<open>u\<close> (already absolute), \<open>dead u\<close> makes
  \<open>page.goto(u)\<close> raise, \<open>kw\<close> is the answer to the keyword prompt, \<open>rel c\<close> the answer for
  page text \<open>c\<close>, \<open>fol h\<close> the answer for link \<open>h\<close>, \<open>wr\<close> the outcome of writing the file.
\<close>

definition stub_env ::
  "(string \<Rightarrow> string list) \<Rightarrow> (string \<Rightarrow> bool) \<Rightarrow> string outcome \<Rightarrow> (string \<Rightarrow> string outcome)
     \<Rightarrow> (string \<Rightarrow> string outcome) \<Rightarrow> unit outcome \<Rightarrow> (string, string) env" where
  "stub_env links dead kw rel fol wr =
     \<lparr>oracle_keywords = (\<lambda>i w. (kw, w)),
      oracle_relevant = (\<lambda>i ks c w. (rel c, w)),
      oracle_follow = (\<lambda>i ks t h c w. (fol h, w)),
      goto = (\<lambda>u w. (if dead u then Raised else Returned (), u)),
      wait_for_load_state = (\<lambda>w. (Returned (), w)),
      inner_text_body = (\<lambda>w. (Returned w, w)),
      title = (\<lambda>w. (Returned w, w)),
      query_selector_all = (\<lambda>w. (Returned (links w), w)),
      get_attribute = (\<lambda>h w. (Returned (Some h), w)),
      link_inner_text = (\<lambda>h w. (Returned h, w)),
      parent_text = (\<lambda>h w. (Returned (Some h), w)),
      now_isoformat = (\<lambda>w. (''2024-01-01T00:00:00'', w)),
      now_strftime = (\<lambda>w. (''20240101_000000'', w)),
      urljoin = (\<lambda>c h. h),
      launch = (\<lambda>w. (Returned (), w)),
      close = (\<lambda>w. (Returned (), w)),
      write_json = (\<lambda>f r w. (wr, w))\<rparr>"

text \<open>The oracle that fails on every call, on a site with one page and no links.\<close>

definition failing_env :: "(string, string) env" where
  "failing_env = stub_env (\<lambda>u. []) (\<lambda>u. False) Raised (\<lambda>c. Raised) (\<lambda>h. Raised) (Returned ())"

section \<open>One page at a time\<close>

lemma crawl_page_unfold:
  "crawl_page E u b i d m s =
     (if d > m \<or> u \<in> visited_urls s then s
      else follow_links E (fst (page_step E u b i d m s)) b i d m (snd (page_step E u b i d m s)))"
  by (subst crawl_page.simps)
     (simp add: page_step_def split: prod.splits outcome.splits)

lemma update_new: "k \<notin> fst ` set al \<Longrightarrow> AList.update k v al = al @ [(k, v)]"
  by (induction al) auto

lemma in_update_keys: "(a, b) \<in> set (AList.update k v al) \<Longrightarrow> a = k \<or> a \<in> fst ` set al"
  using AList.dom_update[of k v al] by force

lemma get_semantic_keywords_effect:
  "get_semantic_keywords E i s = (ks, s') \<Longrightarrow>
     visited_urls s' = visited_urls s \<and> page_relevance s' = page_relevance s \<and>
     page_data s' = page_data s \<and> depth_data s' = depth_data s \<and>
     keywords_list s' = keywords_list s \<and> trace s' = trace s"
  by (auto simp: get_semantic_keywords_def split: prod.splits outcome.splits)

lemma is_content_relevant_effect:
  "is_content_relevant E c i ks s = (r, s') \<Longrightarrow>
     visited_urls s' = visited_urls s \<and> page_relevance s' = page_relevance s \<and>
     page_data s' = page_data s \<and> depth_data s' = depth_data s \<and>
     keywords_list s' = keywords_list s \<and> trace s' = trace s"
  by (auto simp: is_content_relevant_def split: prod.splits outcome.splits)

lemma should_follow_link_effect:
  "should_follow_link E t h i ks c s = (r, s') \<Longrightarrow>
     visited_urls s' = visited_urls s \<and> page_relevance s' = page_relevance s \<and>
     page_data s' = page_data s \<and> depth_data s' = depth_data s \<and>
     keywords_list s' = keywords_list s \<and> trace s' = trace s"
  by (auto simp: should_follow_link_def split: prod.splits outcome.splits)

lemma analyze_link_effect:
  assumes "analyze_link E l cur base i lr s = (r, lr', s')"
  shows "visited_urls s' = visited_urls s \<and> page_relevance s' = page_relevance s \<and>
     page_data s' = page_data s \<and> depth_data s' = depth_data s \<and>
     keywords_list s' = keywords_list s \<and>
     (\<exists>new. trace s' = trace s @ new \<and>
       (\<forall>e \<in> set new. \<exists>h b. e = FollowCall cur h b \<and> prefix base h \<and> h \<notin> visited_urls s)) \<and>
     fst ` set lr' \<subseteq> fst ` set lr \<union> {h. prefix base h}"
  using assms
  by (auto simp: analyze_link_def emit_def
           split: prod.splits outcome.splits if_splits
           dest!: should_follow_link_effect dest: in_update_keys)

lemma analyze_links_effect:
  "analyze_links E ls cur base i lr s = (lr', s') \<Longrightarrow>
     visited_urls s' = visited_urls s \<and> page_relevance s' = page_relevance s \<and>
     page_data s' = page_data s \<and> depth_data s' = depth_data s \<and>
     keywords_list s' = keywords_list s \<and>
     (\<exists>new. trace s' = trace s @ new \<and>
       (\<forall>e \<in> set new. \<exists>h b. e = FollowCall cur h b \<and> prefix base h \<and> h \<notin> visited_urls s)) \<and>
     fst ` set lr' \<subseteq> fst ` set lr \<union> {h. prefix base h}"
proof (induction ls arbitrary: lr s)
  case Nil
  then show ?case by simp
next
  case (Cons l ls)
  obtain r lr1 s1 where al: "analyze_link E l cur base i lr s = (r, lr1, s1)"
    by (cases "analyze_link E l cur base i lr s") auto
  note e1 = analyze_link_effect[OF al]
  from e1 obtain new1 where t1: "trace s1 = trace s @ new1"
    and n1: "\<forall>e \<in> set new1. \<exists>h b. e = FollowCall cur h b \<and> prefix base h \<and> h \<notin> visited_urls s"
    by blast
  show ?case
  proof (cases r)
    case Raised
    with al Cons.prems have "s' = s1" "lr' = lr1" by simp_all
    with e1 show ?thesis by simp
  next
    case (Returned x)
    with al Cons.prems have "analyze_links E ls cur base i lr1 s1 = (lr', s')" by simp
    note e2 = Cons.IH[OF this]
    from e2 obtain new2 where t2: "trace s' = trace s1 @ new2"
      and n2: "\<forall>e \<in> set new2. \<exists>h b. e = FollowCall cur h b \<and> prefix base h \<and> h \<notin> visited_urls s1"
      by blast
    from t1 t2 have "trace s' = trace s @ (new1 @ new2)" by simp
    moreover from n1 n2 e1
    have "\<forall>e \<in> set (new1 @ new2). \<exists>h b. e = FollowCall cur h b \<and> prefix base h \<and> h \<notin> visited_urls s"
      by auto
    ultimately have "\<exists>new. trace s' = trace s @ new \<and>
       (\<forall>e \<in> set new. \<exists>h b. e = FollowCall cur h b \<and> prefix base h \<and> h \<notin> visited_urls s)"
      by blast
    moreover from e1 e2 have "fst ` set lr' \<subseteq> fst ` set lr \<union> {h. prefix base h}" by blast
    ultimately show ?thesis using e1 e2 by simp
  qed
qed

lemma analyze_page_links_effect:
  assumes "analyze_page_links E cur base i s = (lr, s')"
  shows "visited_urls s' = visited_urls s \<and> page_relevance s' = page_relevance s \<and>
     page_data s' = page_data s \<and> depth_data s' = depth_data s \<and>
     keywords_list s' = keywords_list s \<and>
     (\<exists>new. trace s' = trace s @ new \<and>
       (\<forall>e \<in> set new. \<exists>h b. e = FollowCall cur h b \<and> prefix base h \<and> h \<notin> visited_urls s)) \<and>
     (\<forall>h \<in> fst ` set lr. prefix base h)"
proof (cases "query_selector_all E (world s)")
  case (Pair r w)
  show ?thesis
  proof (cases r)
    case Raised
    with Pair assms show ?thesis by (auto simp: analyze_page_links_def)
  next
    case (Returned ls)
    with Pair assms have "analyze_links E ls cur base i [] (s\<lparr>world := w\<rparr>) = (lr, s')"
      by (simp add: analyze_page_links_def)
    from analyze_links_effect[OF this] show ?thesis by auto
  qed
qed

lemma enter_page_effect:
  "visited_urls (enter_page u d s) = insert u (visited_urls s) \<and>
   page_relevance (enter_page u d s) = page_relevance s \<and>
   page_data (enter_page u d s) = page_data s \<and>
   depth_data (enter_page u d s) =
     (if d \<in> fst ` set (depth_data s) then depth_data s else depth_data s @ [(d, [])]) \<and>
   keywords_list (enter_page u d s) = keywords_list s \<and>
   trace (enter_page u d s) = trace s @ [Visit u d]"
  by (simp add: enter_page_def emit_def Let_def update_new)

lemma ensure_keywords_effect:
  "ensure_keywords E i s = s' \<Longrightarrow>
     visited_urls s' = visited_urls s \<and> page_relevance s' = page_relevance s \<and>
     page_data s' = page_data s \<and> depth_data s' = depth_data s \<and>
     (if keywords_list s = [] then trace s' = trace s @ [Expand i (keywords_list s')]
      else keywords_list s' = keywords_list s \<and> trace s' = trace s)"
  by (auto simp: ensure_keywords_def get_semantic_keywords_def emit_def
           split: prod.splits outcome.splits)

lemma load_page_effect:
  "load_page E u s = (r, s') \<Longrightarrow>
     visited_urls s' = visited_urls s \<and> page_relevance s' = page_relevance s \<and>
     page_data s' = page_data s \<and> depth_data s' = depth_data s \<and>
     keywords_list s' = keywords_list s \<and> trace s' = trace s @ [Goto u]"
  by (auto simp: load_page_def emit_def Let_def split: prod.splits outcome.splits)

lemma is_content_relevant_snd:
  "snd (is_content_relevant E c i ks s) =
     s\<lparr>world := snd (oracle_relevant E i ks (take 2000 c) (world s))\<rparr>"
  by (simp add: is_content_relevant_def case_prod_beta split: outcome.splits)

lemma record_page_fields:
  "visited_urls (snd (record_page E u i d c s)) = visited_urls s"
  "keywords_list (snd (record_page E u i d c s)) = keywords_list s"
  "page_relevance (snd (record_page E u i d c s)) =
     AList.update u (fst (is_content_relevant E c i (keywords_list s) s)) (page_relevance s)"
  "trace (snd (record_page E u i d c s)) =
     trace s @ [Relevance u (fst (is_content_relevant E c i (keywords_list s) s))]"
  by (simp_all add: record_page_def case_prod_beta Let_def emit_def is_content_relevant_snd
                split: outcome.splits)

lemma record_page_page_data:
  "fst ` set (page_data s) \<subseteq> fst ` set (page_data (snd (record_page E u i d c s)))"
  by (auto simp add: record_page_def case_prod_beta Let_def emit_def is_content_relevant_snd
                AList.dom_update split: outcome.splits)

lemma record_page_depth_data:
  "depth_data (snd (record_page E u i d c s)) = depth_data s \<or>
   (fst (is_content_relevant E c i (keywords_list s) s) \<and>
    fst (record_page E u i d c s) = Returned () \<and>
    d \<in> fst ` set (depth_data s) \<and>
    u \<in> fst ` set (page_data (snd (record_page E u i d c s))) \<and>
    depth_data (snd (record_page E u i d c s)) =
      AList.map_entry d (\<lambda>urls. urls @ [u]) (depth_data s))"
  by (auto simp add: record_page_def case_prod_beta Let_def emit_def is_content_relevant_snd
                AList.dom_update split: outcome.splits)


lemma visits_append [simp]: "visits (a @ b) = visits a @ visits b"
  by (induction a rule: visits.induct) auto

lemma expansions_append [simp]: "expansions (a @ b) = expansions a @ expansions b"
  by (induction a rule: expansions.induct) auto

lemma relevances_append [simp]: "relevances (a @ b) = relevances a @ relevances b"
  by (induction a rule: relevances.induct) auto

lemma follow_calls_append [simp]: "follow_calls (a @ b) = follow_calls a @ follow_calls b"
  by (induction a rule: follow_calls.induct) auto

lemma only_follow_calls:
  "\<forall>e \<in> set fc. \<exists>h b. e = FollowCall p h b \<and> Q h \<Longrightarrow>
     visits fc = [] \<and> expansions fc = [] \<and> relevances fc = [] \<and>
     (\<forall>x \<in> set (follow_calls fc). fst x = p \<and> Q (fst (snd x)))"
  by (induction fc) auto

lemma record_page_effect:
  assumes "record_page E u i d c s = (r, s')"
  shows "visited_urls s' = visited_urls s \<and> keywords_list s' = keywords_list s \<and>
     fst ` set (page_data s) \<subseteq> fst ` set (page_data s') \<and>
     (\<exists>b. page_relevance s' = AList.update u b (page_relevance s) \<and>
          trace s' = trace s @ [Relevance u b] \<and>
          (depth_data s' = depth_data s \<or>
           (b \<and> r = Returned () \<and> d \<in> fst ` set (depth_data s) \<and>
            u \<in> fst ` set (page_data s') \<and>
            depth_data s' = AList.map_entry d (\<lambda>urls. urls @ [u]) (depth_data s))))"
proof -
  from assms have r: "r = fst (record_page E u i d c s)" and s': "s' = snd (record_page E u i d c s)"
    by simp_all
  show ?thesis
    unfolding r s' using record_page_depth_data[of E u i d c s] record_page_page_data[of s E u i d c]
    by (simp add: record_page_fields)
qed

lemma page_step_cases:
  assumes "page_step E u base i d m s = (lr, s')"
  obtains (load_failed)
      "load_page E u (ensure_keywords E i (enter_page u d s)) = (Raised, s')" "lr = []"
  | (leaf) c s2 r3 where
      "load_page E u (ensure_keywords E i (enter_page u d s)) = (Returned c, s2)"
      "record_page E u i d c s2 = (r3, s')" "r3 = Raised \<or> \<not> d < m" "lr = []"
  | (links) c s2 s3 where
      "load_page E u (ensure_keywords E i (enter_page u d s)) = (Returned c, s2)"
      "record_page E u i d c s2 = (Returned (), s3)" "d < m"
      "analyze_page_links E u base i s3 = (lr, s')"
proof -
  obtain r s2 where lp: "load_page E u (ensure_keywords E i (enter_page u d s)) = (r, s2)"
    by (cases "load_page E u (ensure_keywords E i (enter_page u d s))") auto
  show thesis
  proof (cases r)
    case Raised
    with lp assms have "s' = s2" "lr = []" by (simp_all add: page_step_def process_page_def)
    with lp Raised show thesis by (intro load_failed) simp_all
  next
    case (Returned c)
    obtain r3 s3 where rp: "record_page E u i d c s2 = (r3, s3)"
      by (cases "record_page E u i d c s2") auto
    show thesis
    proof (cases "r3 = Raised \<or> \<not> d < m")
      case True
      with lp Returned rp assms have "s' = s3" "lr = []"
        by (auto simp: page_step_def process_page_def split: outcome.splits)
      with lp Returned rp True show thesis by (intro leaf[of c s2 r3]) simp_all
    next
      case False
      then have "r3 = Returned ()" "d < m" by (cases r3; simp)+
      with lp Returned rp assms have "analyze_page_links E u base i s3 = (lr, s')"
        by (auto simp: page_step_def process_page_def)
      with lp Returned rp \<open>r3 = Returned ()\<close> \<open>d < m\<close> show thesis
        by (intro links[of c s2 s3]) simp_all
    qed
  qed
qed

lemma load_prefix:
  assumes lp: "load_page E u (ensure_keywords E i (enter_page u d s)) = (r, s2)"
  shows "visited_urls s2 = insert u (visited_urls s)"
    and "page_relevance s2 = page_relevance s"
    and "page_data s2 = page_data s"
    and "depth_data s2 =
           (if d \<in> fst ` set (depth_data s) then depth_data s else depth_data s @ [(d, [])])"
    and "keywords_list s \<noteq> [] \<longrightarrow> keywords_list s2 = keywords_list s"
    and "\<exists>pre. trace s2 = trace s @ Visit u d # pre \<and> visits pre = [] \<and>
           follow_calls pre = [] \<and> relevances pre = [] \<and>
           expansions pre = (if keywords_list s = [] then [keywords_list s2] else [])"
proof -
  let ?s0 = "enter_page u d s"
  let ?s1 = "ensure_keywords E i ?s0"
  note e0 = enter_page_effect[of u d s]
  note e1 = ensure_keywords_effect[OF refl, of E i ?s0]
  note e2 = load_page_effect[OF lp]
  from e0 e1 e2 show "visited_urls s2 = insert u (visited_urls s)" by simp
  from e0 e1 e2 show "page_relevance s2 = page_relevance s" by simp
  from e0 e1 e2 show "page_data s2 = page_data s" by simp
  from e0 e1 e2 show "depth_data s2 =
           (if d \<in> fst ` set (depth_data s) then depth_data s else depth_data s @ [(d, [])])"
    by simp
  from e0 e1 e2 show "keywords_list s \<noteq> [] \<longrightarrow> keywords_list s2 = keywords_list s"
    by simp
  let ?pre = "(if keywords_list s = [] then [Expand i (keywords_list s2)] else []) @ [Goto u]"
  have k0: "keywords_list ?s0 = keywords_list s" "trace ?s0 = trace s @ [Visit u d]"
    using e0 by simp_all
  have k2: "keywords_list s2 = keywords_list ?s1" "trace s2 = trace ?s1 @ [Goto u]"
    using e2 by simp_all
  have "trace ?s1 = trace s @ [Visit u d] @
          (if keywords_list s = [] then [Expand i (keywords_list s2)] else [])"
    using e1 k0 k2 by (simp split: if_splits)
  with k2 have "trace s2 = trace s @ Visit u d # ?pre" by simp
  moreover have "visits ?pre = [] \<and> follow_calls ?pre = [] \<and> relevances ?pre = [] \<and>
           expansions ?pre = (if keywords_list s = [] then [keywords_list s2] else [])"
    by simp
  ultimately show "\<exists>pre. trace s2 = trace s @ Visit u d # pre \<and> visits pre = [] \<and>
           follow_calls pre = [] \<and> relevances pre = [] \<and>
           expansions pre = (if keywords_list s = [] then [keywords_list s2] else [])"
    by blast
qed

lemma page_step_frame:
  assumes ps: "page_step E u base i d m s = (lr, s')"
  shows "visited_urls s' = insert u (visited_urls s)"
    and "\<forall>h \<in> fst ` set lr. prefix base h"
    and "fst ` set (page_data s) \<subseteq> fst ` set (page_data s')"
    and "keywords_list s \<noteq> [] \<longrightarrow> keywords_list s' = keywords_list s"
    and "\<not> d < m \<longrightarrow> lr = []"
proof -
  have "visited_urls s' = insert u (visited_urls s) \<and>
    (\<forall>h \<in> fst ` set lr. prefix base h) \<and>
    fst ` set (page_data s) \<subseteq> fst ` set (page_data s') \<and>
    (keywords_list s \<noteq> [] \<longrightarrow> keywords_list s' = keywords_list s) \<and>
    (\<not> d < m \<longrightarrow> lr = [])"
    using ps
  proof (cases rule: page_step_cases)
    case load_failed
    note p = load_prefix[OF load_failed(1)]
    from p(1) p(3) p(5) load_failed(2) show ?thesis by simp
  next
    case (leaf c s2 r3)
    note p = load_prefix[OF leaf(1)]
    note e = record_page_effect[OF leaf(2)]
    have "visited_urls s' = insert u (visited_urls s)" using p(1) e by simp
    moreover have "fst ` set (page_data s) \<subseteq> fst ` set (page_data s')" using p(3) e by simp
    moreover have "keywords_list s \<noteq> [] \<longrightarrow> keywords_list s' = keywords_list s"
      using p(5) e by simp
    ultimately show ?thesis using leaf(4) by simp
  next
    case (links c s2 s3)
    note p = load_prefix[OF links(1)]
    note e = record_page_effect[OF links(2)]
    note a = analyze_page_links_effect[OF links(4)]
    have "visited_urls s' = insert u (visited_urls s)" using p(1) e a by simp
    moreover have "fst ` set (page_data s) \<subseteq> fst ` set (page_data s')" using p(3) e a by simp
    moreover have "keywords_list s \<noteq> [] \<longrightarrow> keywords_list s' = keywords_list s"
      using p(5) e a by simp
    moreover have "\<forall>h \<in> fst ` set lr. prefix base h" using a by blast
    ultimately show ?thesis using links(3) by simp
  qed
  then show "visited_urls s' = insert u (visited_urls s)"
    and "\<forall>h \<in> fst ` set lr. prefix base h"
    and "fst ` set (page_data s) \<subseteq> fst ` set (page_data s')"
    and "keywords_list s \<noteq> [] \<longrightarrow> keywords_list s' = keywords_list s"
    and "\<not> d < m \<longrightarrow> lr = []"
    by simp_all
qed

lemma page_step_trace:
  assumes ps: "page_step E u base i d m s = (lr, s')"
  shows "\<exists>pre fc. (trace s' = trace s @ Visit u d # pre @ fc \<and> visits pre = [] \<and>
           follow_calls pre = [] \<and>
           (\<forall>e \<in> set fc. \<exists>h b. e = FollowCall u h b \<and> prefix base h \<and>
                              h \<notin> insert u (visited_urls s)) \<and>
           (\<not> d < m \<longrightarrow> fc = []) \<and>
           expansions pre = (if keywords_list s = [] then [keywords_list s'] else [])) \<and>
           ((relevances pre = [] \<and> page_relevance s' = page_relevance s \<and> lr = [] \<and> fc = [] \<and>
             depth_data s' =
               (if d \<in> fst ` set (depth_data s) then depth_data s
                else depth_data s @ [(d, [])]) \<and>
             fst (load_page E u (ensure_keywords E i (enter_page u d s))) = Raised) \<or>
            (\<exists>b. relevances pre = [(u, b)] \<and>
                 page_relevance s' = AList.update u b (page_relevance s) \<and>
                 fst (load_page E u (ensure_keywords E i (enter_page u d s))) \<noteq> Raised \<and>
                 (depth_data s' =
                    (if d \<in> fst ` set (depth_data s) then depth_data s
                     else depth_data s @ [(d, [])]) \<or>
                  (b \<and> u \<in> fst ` set (page_data s') \<and>
                   depth_data s' =
                     AList.map_entry d (\<lambda>urls. urls @ [u])
                       (if d \<in> fst ` set (depth_data s) then depth_data s
                        else depth_data s @ [(d, [])])))))"
    (is "\<exists>pre fc. ?T pre fc \<and> ?D pre fc")
  using ps
proof (cases rule: page_step_cases)
  case load_failed
  note p = load_prefix[OF load_failed(1)]
  from p(6) obtain pre where pre: "trace s' = trace s @ Visit u d # pre" "visits pre = []"
    "follow_calls pre = []" "relevances pre = []"
    "expansions pre = (if keywords_list s = [] then [keywords_list s'] else [])"
    by blast
  have "?T pre []" using pre by simp
  moreover have "?D pre []" using pre(4) p(2) p(4) load_failed by simp
  ultimately show ?thesis by blast
next
  case (leaf c s2 r3)
  note p = load_prefix[OF leaf(1)]
  note e = record_page_effect[OF leaf(2)]
  from p(6) obtain pre where pre: "trace s2 = trace s @ Visit u d # pre" "visits pre = []"
    "follow_calls pre = []" "relevances pre = []"
    "expansions pre = (if keywords_list s = [] then [keywords_list s2] else [])"
    by blast
  from e obtain b where b: "page_relevance s' = AList.update u b (page_relevance s2)"
    "trace s' = trace s2 @ [Relevance u b]"
    "depth_data s' = depth_data s2 \<or>
         (b \<and> u \<in> fst ` set (page_data s') \<and>
          depth_data s' = AList.map_entry d (\<lambda>urls. urls @ [u]) (depth_data s2))"
    by blast
  have k: "keywords_list s' = keywords_list s2" using e by simp
  have t: "trace s' = trace s @ Visit u d # (pre @ [Relevance u b]) @ []"
    using pre(1) b(2) by simp
  have r: "relevances (pre @ [Relevance u b]) = [(u, b)]" "visits (pre @ [Relevance u b]) = []"
    "follow_calls (pre @ [Relevance u b]) = []"
    "expansions (pre @ [Relevance u b]) = (if keywords_list s = [] then [keywords_list s'] else [])"
    using pre k by simp_all
  have l: "fst (load_page E u (ensure_keywords E i (enter_page u d s))) \<noteq> Raised"
    using leaf(1) by simp
  have dd: "depth_data s' =
                    (if d \<in> fst ` set (depth_data s) then depth_data s
                     else depth_data s @ [(d, [])]) \<or>
                  (b \<and> u \<in> fst ` set (page_data s') \<and>
                   depth_data s' =
                     AList.map_entry d (\<lambda>urls. urls @ [u])
                       (if d \<in> fst ` set (depth_data s) then depth_data s
                        else depth_data s @ [(d, [])]))"
    using b(3) unfolding p(4) .
  have pr: "page_relevance s' = AList.update u b (page_relevance s)"
    using b(1) p(2) by simp
  have "?T (pre @ [Relevance u b]) []" using t r by simp
  moreover have "?D (pre @ [Relevance u b]) []" using r(1) l dd pr by blast
  ultimately show ?thesis by blast
next
  case (links c s2 s3)
  note p = load_prefix[OF links(1)]
  note e = record_page_effect[OF links(2)]
  note a = analyze_page_links_effect[OF links(4)]
  from p(6) obtain pre where pre: "trace s2 = trace s @ Visit u d # pre" "visits pre = []"
    "follow_calls pre = []" "relevances pre = []"
    "expansions pre = (if keywords_list s = [] then [keywords_list s2] else [])"
    by blast
  from e obtain b where b: "page_relevance s3 = AList.update u b (page_relevance s2)"
    "trace s3 = trace s2 @ [Relevance u b]"
    "depth_data s3 = depth_data s2 \<or>
         (b \<and> u \<in> fst ` set (page_data s3) \<and>
          depth_data s3 = AList.map_entry d (\<lambda>urls. urls @ [u]) (depth_data s2))"
    by blast
  from a obtain fc where fc: "trace s' = trace s3 @ fc"
    "\<forall>e \<in> set fc. \<exists>h b. e = FollowCall u h b \<and> prefix base h \<and> h \<notin> visited_urls s3"
    by blast
  have v3: "visited_urls s3 = insert u (visited_urls s)" using p(1) e by simp
  have k: "keywords_list s' = keywords_list s2" using e a by simp
  have t: "trace s' = trace s @ Visit u d # (pre @ [Relevance u b]) @ fc"
    using pre(1) b(2) fc(1) by simp
  have r: "relevances (pre @ [Relevance u b]) = [(u, b)]" "visits (pre @ [Relevance u b]) = []"
    "follow_calls (pre @ [Relevance u b]) = []"
    "expansions (pre @ [Relevance u b]) = (if keywords_list s = [] then [keywords_list s'] else [])"
    using pre k by simp_all
  have l: "fst (load_page E u (ensure_keywords E i (enter_page u d s))) \<noteq> Raised"
    using links(1) by simp
  have pd: "fst ` set (page_data s3) = fst ` set (page_data s')" using a by simp
  have dd: "depth_data s' =
                    (if d \<in> fst ` set (depth_data s) then depth_data s
                     else depth_data s @ [(d, [])]) \<or>
                  (b \<and> u \<in> fst ` set (page_data s') \<and>
                   depth_data s' =
                     AList.map_entry d (\<lambda>urls. urls @ [u])
                       (if d \<in> fst ` set (depth_data s) then depth_data s
                        else depth_data s @ [(d, [])]))"
    using b(3) a unfolding p(4) pd by simp
  have pr: "page_relevance s' = AList.update u b (page_relevance s)"
    using b(1) p(2) a by simp
  have f: "\<forall>e \<in> set fc. \<exists>h b. e = FollowCall u h b \<and> prefix base h \<and>
                              h \<notin> insert u (visited_urls s)"
    using fc(2) unfolding v3 .
  have "?T (pre @ [Relevance u b]) fc" using t r f links(3) by simp
  moreover have "?D (pre @ [Relevance u b]) fc" using r(1) l dd pr by blast
  ultimately show ?thesis by blast
qed

lemma page_step_links_process:
  assumes "page_step E u base i d m s = (lr, s')" "lr \<noteq> []"
  obtains s3 where "process_page E u i d (enter_page u d s) = (Returned (), s3)" "d < m"
    "analyze_page_links E u base i s3 = (lr, s')"
  using assms(1)
proof (cases rule: page_step_cases)
  case load_failed
  with assms(2) show ?thesis by simp
next
  case (leaf c s2 r3)
  with assms(2) show ?thesis by simp
next
  case (links c s2 s3)
  then have "process_page E u i d (enter_page u d s) = (Returned (), s3)"
    by (simp add: process_page_def)
  with links that show ?thesis by blast
qed

lemma crawl_rel_aux:
  fixes R :: "'w rufus \<Rightarrow> 'w rufus \<Rightarrow> bool"
  assumes rfl: "\<And>s. R s s"
    and trn: "\<And>a b c. R a b \<Longrightarrow> R b c \<Longrightarrow> R a c"
    and step: "\<And>u d s. u \<notin> visited_urls s \<Longrightarrow> d \<le> m0 \<Longrightarrow>
                 (d = d0 \<and> u = u0) \<or> (d0 < d \<and> prefix base0 u) \<Longrightarrow>
                 R s (snd (page_step E0 u base0 i0 d m0 s))"
  shows "E = E0 \<and> base = base0 \<and> i = i0 \<and> m = m0 \<Longrightarrow>
           (d = d0 \<and> u = u0) \<or> (d0 < d \<and> prefix base u) \<Longrightarrow>
           R s (crawl_page E u base i d m s)"
    and "E = E0 \<and> base = base0 \<and> i = i0 \<and> m = m0 \<Longrightarrow>
           d0 \<le> d \<Longrightarrow> \<forall>v \<in> fst ` set items. prefix base v \<Longrightarrow>
           R s (follow_links E items base i d m s)"
proof (induction E u base i d m s and E items base i d m s rule: crawl_page_follow_links.induct)
  case (1 E u base i d m s)
  note eqs = "1.prems"(1) and dj = "1.prems"(2)
  show ?case
  proof (cases "m < d \<or> u \<in> visited_urls s")
    case True
    then show ?thesis by (simp add: crawl_page_unfold rfl)
  next
    case False
    obtain lr s1 where ps: "page_step E u base i d m s = (lr, s1)"
      by (cases "page_step E u base i d m s") auto
    have "R s (snd (page_step E0 u base0 i0 d m0 s))"
      by (rule step) (use False dj eqs in auto)
    with ps eqs have R1: "R s s1" by simp
    have cp: "crawl_page E u base i d m s = follow_links E lr base i d m s1"
      using False ps by (simp add: crawl_page_unfold)
    have "R s1 (follow_links E lr base i d m s1)"
    proof (cases "lr = []")
      case True
      then show ?thesis by (simp add: rfl)
    next
      case nonempty: False
      from ps nonempty obtain s3 where
        pp: "process_page E u i d (enter_page u d s) = (Returned (), s3)" and dm: "d < m"
        and an: "analyze_page_links E u base i s3 = (lr, s1)"
        by (rule page_step_links_process)
      have keys: "\<forall>v \<in> fst ` set lr. prefix base v"
        using page_step_frame(2)[OF ps] .
      have d0d: "d0 \<le> d" using dj by auto
      show ?thesis
        by (rule "1.IH"[OF False pp[symmetric] refl dm an[symmetric] eqs d0d keys])
    qed
    from trn[OF R1 this] cp show ?thesis by simp
  qed
next
  case (2 E base i d m s)
  show ?case by (simp add: rfl)
next
  case (3 E url relevant rest base i d m s)
  note eqs = "3.prems"(1) and d0d = "3.prems"(2) and keys = "3.prems"(3)
  let ?mid = "if relevant \<and> url \<notin> visited_urls s
              then crawl_page E url base i (d + 1) m s else s"
  have keys': "\<forall>v \<in> fst ` set rest. prefix base v" using keys by simp
  have pu: "prefix base url" using keys by simp
  have R1: "R s ?mid"
  proof (cases "relevant \<and> url \<notin> visited_urls s")
    case True
    have "(d + 1 = d0 \<and> url = u0) \<or> (d0 < d + 1 \<and> prefix base url)" using d0d pu by simp
    from "3.IH"(1)[OF True eqs this] True show ?thesis by simp
  next
    case False
    then show ?thesis using rfl[of s] by auto
  qed
  have R2: "R ?mid (follow_links E rest base i d m ?mid)"
    by (rule "3.IH"(2)[OF eqs d0d keys'])
  from trn[OF R1 R2] show ?case by simp
qed

lemma crawl_rel:
  fixes R :: "'w rufus \<Rightarrow> 'w rufus \<Rightarrow> bool"
  assumes rfl: "\<And>s. R s s"
    and trn: "\<And>a b c. R a b \<Longrightarrow> R b c \<Longrightarrow> R a c"
    and step: "\<And>u d s. u \<notin> visited_urls s \<Longrightarrow> d0 \<le> d \<Longrightarrow> d \<le> m \<Longrightarrow>
                 (d = d0 \<and> u = u0) \<or> (d0 < d \<and> prefix base u) \<Longrightarrow>
                 R s (snd (page_step E u base i d m s))"
  shows "R s (crawl_page E u0 base i d0 m s)"
    and "d0 \<le> d \<Longrightarrow> \<forall>v \<in> fst ` set items. prefix base v \<Longrightarrow>
           R s (follow_links E items base i d m s)"
proof -
  have step': "\<And>u d s. u \<notin> visited_urls s \<Longrightarrow> d \<le> m \<Longrightarrow>
                 (d = d0 \<and> u = u0) \<or> (d0 < d \<and> prefix base u) \<Longrightarrow>
                 R s (snd (page_step E u base i d m s))"
    by (rule step) auto
  show "R s (crawl_page E u0 base i d0 m s)"
    by (rule crawl_rel_aux(1)[where R = R, OF rfl trn step']) auto
  show "d0 \<le> d \<Longrightarrow> \<forall>v \<in> fst ` set items. prefix base v \<Longrightarrow>
           R s (follow_links E items base i d m s)"
    by (rule crawl_rel_aux(2)[where R = R, OF rfl trn step']) auto
qed

section \<open>The classification gateway fails closed\<close>

text \<open>
  C8. When the oracle call behind it raises, \<open>get_semantic_keywords\<close> returns the empty
  list and \<open>is_content_relevant\<close> and \<open>should_follow_link\<close> return false. The three
  functions return a value in every case (their result type has no error), so no oracle
  error reaches \<open>crawl_page\<close>.
\<close>

theorem gateway_fail_closed:
  "(fst (oracle_keywords E instruction (world s)) = Raised
      \<longrightarrow> fst (get_semantic_keywords E instruction s) = []) \<and>
   (fst (oracle_relevant E instruction kws (take 2000 content) (world s)) = Raised
      \<longrightarrow> fst (is_content_relevant E content instruction kws s) = False) \<and>
   (fst (oracle_follow E instruction kws link_text href surrounding (world s)) = Raised
      \<longrightarrow> fst (should_follow_link E link_text href instruction kws surrounding s) = False)"
  by (auto simp: get_semantic_keywords_def is_content_relevant_def should_follow_link_def
           split: prod.splits outcome.splits)

theorem gateway_fail_closed_witness:
  "fst (oracle_keywords failing_env ''pricing'' (world (rufus_init ''''))) = Raised \<and>
   fst (get_semantic_keywords failing_env ''pricing'' (rufus_init '''')) = [] \<and>
   fst (oracle_relevant failing_env ''pricing'' [] (take 2000 ''text'') (world (rufus_init '''')))
     = Raised \<and>
   fst (is_content_relevant failing_env ''text'' ''pricing'' [] (rufus_init '''')) = False \<and>
   fst (oracle_follow failing_env ''pricing'' [] ''Pricing'' ''https://a/p'' ''ctx''
          (world (rufus_init ''''))) = Raised \<and>
   fst (should_follow_link failing_env ''Pricing'' ''https://a/p'' ''pricing'' [] ''ctx''
          (rufus_init '''')) = False"
proof -
  have k: "fst (oracle_keywords failing_env ''pricing'' (world (rufus_init ''''))) = Raised"
    by (simp add: failing_env_def stub_env_def)
  have r: "fst (oracle_relevant failing_env ''pricing'' [] (take 2000 ''text'')
                  (world (rufus_init ''''))) = Raised"
    by (simp add: failing_env_def stub_env_def)
  have f: "fst (oracle_follow failing_env ''pricing'' [] ''Pricing'' ''https://a/p'' ''ctx''
                  (world (rufus_init ''''))) = Raised"
    by (simp add: failing_env_def stub_env_def)
  from k r f
    gateway_fail_closed [of failing_env "''pricing''" "rufus_init ''''" "[]" "''text''"
      "''Pricing''" "''https://a/p''" "''ctx''"]
  show ?thesis by blast
qed

end
